theory Spec2Isabelle
  imports Main "HOL-Library.Word"
begin

section \<open>ManualProjectCreate: the form controller\<close>

subsection \<open>JavaScript strings\<close>

text \<open>
  A JavaScript string is a sequence of 16-bit code units; \<open>length\<close> counts code units and
  \<open>===\<close> on strings is equality of the sequences. A regular expression without the \<open>u\<close>
  flag matches code unit by code unit.
\<close>

type_synonym code_unit = "16 word"
type_synonym jsstring = "code_unit list"

text \<open>The code unit of an ASCII character, used to write string literals of the source.\<close>

definition cu :: "char \<Rightarrow> code_unit" where
  "cu c = of_nat (of_char c)"

definition js :: "string \<Rightarrow> jsstring" where
  "js s = map cu s"

subsection \<open>Regular expressions\<close>

text \<open>
  The fragment of the regular expression syntax that \<open>validateKey\<close> uses: the assertions
  \<open>^\<close> and \<open>$\<close>, a character class (a union of single characters, ranges and the class
  escape \<open>\w\<close>), the quantifier \<open>*\<close> and sequencing.
\<close>

datatype class_atom = Single code_unit | Range code_unit code_unit | WordChar

datatype regex =
    Bol
  | Eol
  | Class "class_atom list"
  | Star regex
  | Seq regex regex

text \<open>\<open>r+\<close> is \<open>r{1,}\<close>: one match of \<open>r\<close>, then \<open>r*\<close>.\<close>

definition Plus :: "regex \<Rightarrow> regex" where
  "Plus r = Seq r (Star r)"

text \<open>\<open>\w\<close> without the \<open>u\<close> and \<open>i\<close> flags is \<open>[A-Za-z0-9_]\<close>.\<close>

fun atom_matches :: "class_atom \<Rightarrow> code_unit \<Rightarrow> bool" where
  "atom_matches (Single a) c = (c = a)"
| "atom_matches (Range lo hi) c = (lo \<le> c \<and> c \<le> hi)"
| "atom_matches WordChar c =
     ((cu CHR ''a'' \<le> c \<and> c \<le> cu CHR ''z'') \<or> (cu CHR ''A'' \<le> c \<and> c \<le> cu CHR ''Z'')
      \<or> (cu CHR ''0'' \<le> c \<and> c \<le> cu CHR ''9'') \<or> c = cu CHR ''_'')"

definition class_matches :: "class_atom list \<Rightarrow> code_unit \<Rightarrow> bool" where
  "class_matches atoms c = list_ex (\<lambda>a. atom_matches a c) atoms"

text \<open>
  The backtracking matcher: \<open>ends r s i\<close> lists, in the order the engine tries them, the end
  indices of the matches of \<open>r\<close> in the input \<open>s\<close> that start at index \<open>i\<close>. Quantifiers are
  greedy: one more iteration is tried before stopping. An iteration of \<open>*\<close> that consumes
  nothing is rejected, as the language definition has it; an end index never exceeds the
  length of the input.
\<close>

function ends :: "regex \<Rightarrow> jsstring \<Rightarrow> nat \<Rightarrow> nat list" where
  "ends Bol s i = (if i = 0 then [i] else [])"
| "ends Eol s i = (if i = length s then [i] else [])"
| "ends (Class atoms) s i =
     (if i < length s \<and> class_matches atoms (s ! i) then [Suc i] else [])"
| "ends (Seq r1 r2) s i = concat (map (\<lambda>j. ends r2 s j) (ends r1 s i))"
| "ends (Star r) s i =
     concat (map (\<lambda>j. if i < j \<and> j \<le> length s then ends (Star r) s j else [])
                 (ends r s i)) @ [i]"
  by pat_completeness auto
termination
  by (relation "measures [\<lambda>(r, s, i). size r, \<lambda>(r, s, i). length s - i]") auto

declare ends.simps(5) [simp del]

text \<open>
  \<open>RegExp.prototype.test\<close> of a regular expression without the \<open>g\<close> and \<open>y\<close> flags: the
  match is attempted at every start index from 0 to the length of the input.
\<close>

definition test :: "regex \<Rightarrow> jsstring \<Rightarrow> bool" where
  "test r s = list_ex (\<lambda>i. ends r s i \<noteq> []) [0..<Suc (length s)]"

text \<open>The class \<open>[\w-.:]\<close> and the pattern \<open>/^[\w-.:]*[a-zA-Z]+[\w-.:]*$/\<close>.\<close>

definition key_class :: "class_atom list" where
  "key_class = [WordChar, Single (cu CHR ''-''), Single (cu CHR ''.''), Single (cu CHR '':'')]"

definition letter_class :: "class_atom list" where
  "letter_class = [Range (cu CHR ''a'') (cu CHR ''z''), Range (cu CHR ''A'') (cu CHR ''Z'')]"

definition key_pattern :: regex where
  "key_pattern =
     Seq Bol (Seq (Star (Class key_class))
             (Seq (Plus (Class letter_class))
             (Seq (Star (Class key_class)) Eol)))"

subsection \<open>Validation\<close>

text \<open>
  \<open>translate\<close> is imported from another package; it is a parameter \<open>tr\<close> of every function
  that calls it. \<open>undefined\<close> is \<open>None\<close>.
\<close>

definition validateKey :: "(string \<Rightarrow> jsstring) \<Rightarrow> jsstring \<Rightarrow> jsstring option" where
  "validateKey tr projectKey =
     (if length projectKey > 400 \<or> \<not> test key_pattern projectKey
      then Some (tr ''onboarding.create_project.project_key.error'')
      else None)"

definition validateName :: "(string \<Rightarrow> jsstring) \<Rightarrow> jsstring \<Rightarrow> jsstring option" where
  "validateName tr projectName =
     (if length projectName = 0 \<or> length projectName > 255
      then Some (tr ''onboarding.create_project.display_name.error'')
      else None)"

subsection \<open>Strings: truthiness and trimming\<close>

text \<open>\<open>a || b\<close> on strings: the empty string is the only falsy string.\<close>

definition js_or :: "jsstring \<Rightarrow> jsstring \<Rightarrow> jsstring" where
  "js_or a b = (if a = [] then b else a)"

text \<open>
  \<open>String.prototype.trim\<close> removes the white space and line terminator code points from
  both ends: TAB, LF, VT, FF, CR, SP, NBSP, U+1680, U+2000 to U+200A, U+2028, U+2029,
  U+202F, U+205F, U+3000 and U+FEFF. All of them are single code units.
\<close>

definition is_white_space :: "code_unit \<Rightarrow> bool" where
  "is_white_space c =
     (c \<in> {0x0009, 0x000A, 0x000B, 0x000C, 0x000D, 0x0020, 0x00A0, 0x1680,
            0x2028, 0x2029, 0x202F, 0x205F, 0x3000, 0xFEFF}
      \<or> (0x2000 \<le> c \<and> c \<le> 0x200A))"

definition trim :: "jsstring \<Rightarrow> jsstring" where
  "trim s = rev (dropWhile is_white_space (rev (dropWhile is_white_space s)))"

subsection \<open>The component\<close>

text \<open>The interface \<open>State\<close>; an optional field that is absent or \<open>undefined\<close> is \<open>None\<close>.\<close>

record State =
  projectName :: jsstring
  projectNameChanged :: bool
  projectNameError :: "jsstring option"
  projectKey :: jsstring
  projectKeyError :: "jsstring option"
  submitting :: bool
  touched :: bool
  validating :: bool

text \<open>The instance: the \<open>mounted\<close> field and the React state.\<close>

record component =
  mounted :: bool
  state :: State

text \<open>
  What a handler asks of its environment, in the order of the calls: the calls of the
  imported \<open>createProject\<close> and \<open>doesComponentExists\<close>, of the callback
  \<open>props.onProjectCreate\<close>, of \<open>event.preventDefault\<close>, and of the debounced
  \<open>this.checkFreeKey\<close>.
\<close>

datatype effect =
    PreventDefault
  | CreateProject jsstring jsstring
  | DoesComponentExists jsstring
  | OnProjectCreate "jsstring list"
  | CheckFreeKey jsstring

text \<open>The state the constructor sets, and the instance before it is mounted.\<close>

definition initialState :: State where
  "initialState =
     \<lparr>projectName = [], projectNameChanged = False, projectNameError = None,
      projectKey = [], projectKeyError = None,
      submitting = False, touched = False, validating = False\<rparr>"

definition constructor :: component where
  "constructor = \<lparr>mounted = False, state = initialState\<rparr>"

definition componentDidMount :: "component \<Rightarrow> component" where
  "componentDidMount c = c\<lparr>mounted := True\<rparr>"

definition componentWillUnmount :: "component \<Rightarrow> component" where
  "componentWillUnmount c = c\<lparr>mounted := False\<rparr>"

text \<open>
  \<open>checkFreeKey\<close> (the function that the constructor wraps in \<open>debounce\<close>) issues the
  request; the two callbacks of its promise are the functions \<open>checkFreeKey_then\<close> (the
  request resolved with \<open>alreadyExist\<close>) and \<open>checkFreeKey_catch\<close> (it was rejected), run on
  the instance as it is when the promise settles.
\<close>

definition checkFreeKey :: "jsstring \<Rightarrow> effect list" where
  "checkFreeKey key = [DoesComponentExists key]"

definition checkFreeKey_then ::
  "(string \<Rightarrow> jsstring) \<Rightarrow> jsstring \<Rightarrow> bool \<Rightarrow> component \<Rightarrow> component" where
  "checkFreeKey_then tr key alreadyExist c =
     (if mounted c \<and> key = projectKey (state c) then
        (if \<not> alreadyExist then
           c\<lparr>state := (state c)\<lparr>projectKeyError := None, validating := False\<rparr>\<rparr>
         else
           c\<lparr>state := (state c)
                \<lparr>projectKeyError := Some (tr ''onboarding.create_project.project_key.taken''),
                 touched := True,
                 validating := False\<rparr>\<rparr>)
      else c)"

definition checkFreeKey_catch :: "jsstring \<Rightarrow> component \<Rightarrow> component" where
  "checkFreeKey_catch key c =
     (if mounted c \<and> key = projectKey (state c) then
        c\<lparr>state := (state c)\<lparr>projectKeyError := None, validating := False\<rparr>\<rparr>
      else c)"

definition canSubmit :: "State \<Rightarrow> bool" where
  "canSubmit s =
     (projectKeyError s = None \<and> projectNameError s = None
      \<and> length (projectKey s) > 0 \<and> length (projectName s) > 0)"

text \<open>
  \<open>handleFormSubmit\<close>; the callbacks of the promise of \<open>createProject\<close> are
  \<open>createProject_then\<close> (resolved with a project of the given key) and
  \<open>createProject_catch\<close> (rejected).
\<close>

definition handleFormSubmit :: "component \<Rightarrow> component \<times> effect list" where
  "handleFormSubmit c =
     (let s = state c in
      if canSubmit s then
        (c\<lparr>state := s\<lparr>submitting := True\<rparr>\<rparr>,
         [PreventDefault,
          CreateProject (projectKey s) (trim (js_or (projectName s) (projectKey s)))])
      else (c, [PreventDefault]))"

definition createProject_then :: "jsstring \<Rightarrow> component \<Rightarrow> component \<times> effect list" where
  "createProject_then key c = (c, [OnProjectCreate [key]])"

definition createProject_catch :: "component \<Rightarrow> component" where
  "createProject_catch c =
     (if mounted c then c\<lparr>state := (state c)\<lparr>submitting := False\<rparr>\<rparr> else c)"

definition handleProjectKeyChange ::
  "(string \<Rightarrow> jsstring) \<Rightarrow> jsstring \<Rightarrow> component \<Rightarrow> component \<times> effect list" where
  "handleProjectKeyChange tr val c =
     (let key = js_or val [];
          keyError = validateKey tr key;
          prevState = state c;
          name = (if projectNameChanged prevState then projectName prevState else key)
      in (c\<lparr>state := prevState
              \<lparr>projectKey := key,
               projectKeyError := keyError,
               projectName := name,
               projectNameError := validateName tr name,
               touched := True,
               validating := (keyError = None)\<rparr>\<rparr>,
          if keyError = None then [CheckFreeKey key] else []))"

definition handleProjectNameChange ::
  "(string \<Rightarrow> jsstring) \<Rightarrow> jsstring \<Rightarrow> component \<Rightarrow> component" where
  "handleProjectNameChange tr val c =
     c\<lparr>state := (state c)
          \<lparr>projectName := val,
           projectNameChanged := True,
           projectNameError := validateName tr val\<rparr>\<rparr>"

text \<open>The \<open>disabled\<close> property that \<open>render\<close> gives the submit button.\<close>

definition submitDisabled :: "State \<Rightarrow> bool" where
  "submitDisabled s = (\<not> canSubmit s \<or> submitting s)"

subsection \<open>The debounced uniqueness check\<close>

text \<open>
  The constructor replaces \<open>this.checkFreeKey\<close> by \<open>debounce(this.checkFreeKey, 250)\<close>.
  \<open>debounce\<close> is imported from a library. Time is counted in milliseconds.
\<close>

definition wait :: nat where
  "wait = 250"

text \<open>
  The key-change events with their times, the pending call of the debounced function (its
  argument and the time it is due), and the requests issued so far.
\<close>

record timed =
  comp :: component
  timer :: "(jsstring \<times> nat) option"
  issued :: "effect list"

text \<open>
  Modelled from the spec: \<open>debounce\<close> (of the imported library, absent from the sources),
  "coalesce rapid repeated triggers into one delayed action using the last input": a call at
  time \<open>t\<close> supersedes the pending call and is due \<open>wait\<close> milliseconds later.
\<close>

definition debounce_call :: "nat \<Rightarrow> jsstring \<Rightarrow> timed \<Rightarrow> timed" where
  "debounce_call t key sys = sys\<lparr>timer := Some (key, t + wait)\<rparr>"

text \<open>
  Modelled from the spec: \<open>debounce\<close>, the delayed action. When the time \<open>t\<close> is reached, a
  pending call that is due runs the wrapped \<open>checkFreeKey\<close> with its argument.
\<close>

definition debounce_elapse :: "nat \<Rightarrow> timed \<Rightarrow> timed" where
  "debounce_elapse t sys =
     (case timer sys of
        None \<Rightarrow> sys
      | Some (key, due) \<Rightarrow>
          if due \<le> t then sys\<lparr>timer := None, issued := issued sys @ checkFreeKey key\<rparr>
          else sys)"

text \<open>
  Modelled from the spec: \<open>debounce\<close>, once no further call comes: the pending call runs.
\<close>

definition debounce_settle :: "timed \<Rightarrow> timed" where
  "debounce_settle sys =
     (case timer sys of
        None \<Rightarrow> sys
      | Some (key, due) \<Rightarrow> sys\<lparr>timer := None, issued := issued sys @ checkFreeKey key\<rparr>)"

text \<open>The environment runs what a key change asks for: the debounced call.\<close>

fun perform :: "nat \<Rightarrow> effect \<Rightarrow> timed \<Rightarrow> timed" where
  "perform t (CheckFreeKey key) sys = debounce_call t key sys"
| "perform t _ sys = sys"

text \<open>A key-change event at time \<open>t\<close> with the value \<open>val\<close> of the input, and a sequence of them.\<close>

definition keyChangeAt :: "(string \<Rightarrow> jsstring) \<Rightarrow> nat \<times> jsstring \<Rightarrow> timed \<Rightarrow> timed" where
  "keyChangeAt tr ev sys =
     (let sys1 = debounce_elapse (fst ev) sys;
          res = handleProjectKeyChange tr (snd ev) (comp sys1)
      in fold (perform (fst ev)) (snd res) (sys1\<lparr>comp := fst res\<rparr>))"

definition keyChanges :: "(string \<Rightarrow> jsstring) \<Rightarrow> (nat \<times> jsstring) list \<Rightarrow> timed \<Rightarrow> timed" where
  "keyChanges tr evs sys = fold (keyChangeAt tr) evs sys"

text \<open>
  The events lie within one window of \<open>wait\<close> milliseconds: their times do not decrease and
  the last one is less than \<open>wait\<close> after the first.
\<close>

definition within_window :: "(nat \<times> jsstring) list \<Rightarrow> bool" where
  "within_window evs =
     (sorted (map fst evs)
      \<and> (case evs of [] \<Rightarrow> True | e # _ \<Rightarrow> fst (last evs) < fst e + wait))"

text \<open>The entered values that pass the local validation, in the order of entry.\<close>

definition valid_keys :: "(string \<Rightarrow> jsstring) \<Rightarrow> (nat \<times> jsstring) list \<Rightarrow> jsstring list" where
  "valid_keys tr evs = filter (\<lambda>key. validateKey tr key = None) (map snd evs)"

text \<open>
  The request of a call that is pending when the events start: it is issued unless the
  first entered value that passes the local validation comes before the call is due.
\<close>

definition carried_over ::
  "(string \<Rightarrow> jsstring) \<Rightarrow> (nat \<times> jsstring) list \<Rightarrow> (jsstring \<times> nat) option \<Rightarrow> effect list" where
  "carried_over tr evs pending =
     (case pending of
        None \<Rightarrow> []
      | Some (key, due) \<Rightarrow>
          (case find (\<lambda>ev. validateKey tr (snd ev) = None) evs of
             None \<Rightarrow> checkFreeKey key
           | Some ev \<Rightarrow> if due \<le> fst ev then checkFreeKey key else []))"

subsection \<open>The words of the specification\<close>

text \<open>An ASCII letter; a word character, hyphen, dot or colon.\<close>

definition ascii_letter :: "code_unit \<Rightarrow> bool" where
  "ascii_letter c = ((0x41 \<le> c \<and> c \<le> 0x5A) \<or> (0x61 \<le> c \<and> c \<le> 0x7A))"

definition key_character :: "code_unit \<Rightarrow> bool" where
  "key_character c =
     (ascii_letter c \<or> (0x30 \<le> c \<and> c \<le> 0x39) \<or> c = 0x5F
      \<or> c = 0x2D \<or> c = 0x2E \<or> c = 0x3A)"

subsection \<open>Auxiliary notions\<close>

text \<open>
  The end indices of the runs of code units that satisfy \<open>p\<close> and start at index \<open>i\<close>.
\<close>

definition run_of :: "(code_unit \<Rightarrow> bool) \<Rightarrow> jsstring \<Rightarrow> nat \<Rightarrow> nat set" where
  "run_of p s i = {j. i \<le> j \<and> (\<forall>k. i \<le> k \<and> k < j \<longrightarrow> k < length s \<and> p (s ! k))}"

text \<open>No pending call of the debounced function is due before the time \<open>T\<close>.\<close>

definition quiet :: "nat \<Rightarrow> timed \<Rightarrow> bool" where
  "quiet T sys = (case timer sys of None \<Rightarrow> True | Some (key, due) \<Rightarrow> T \<le> due)"

subsection \<open>Scenarios\<close>

text \<open>
  A mounted form in which the key \<open>my-project\<close> was typed; the same form after the submit
  button was pressed; and the form after the name was then replaced by a single space.
  The message catalogue is empty: \<open>translate\<close> returns the message key.
\<close>

definition key_typed :: component where
  "key_typed = fst (handleProjectKeyChange js (js ''my-project'') (componentDidMount constructor))"

definition submit_pressed :: component where
  "submit_pressed = fst (handleFormSubmit key_typed)"

definition blank_name :: component where
  "blank_name = handleProjectNameChange js (js '' '') key_typed"

text \<open>
  Two edits of the key 10 milliseconds apart, the second one not a valid key, in a form that
  was just mounted.
\<close>

definition two_edits :: "(nat \<times> jsstring) list" where
  "two_edits = [(0, js ''ab''), (10, js ''ab!'')]"

definition fresh :: timed where
  "fresh = \<lparr>comp = componentDidMount constructor, timer = None, issued = []\<rparr>"

text \<open>
  The form in which the key \<open>a\<close> was typed at time 0, so that the call for it is pending.
  Typing goes on with three valid edits from 100 to 300 milliseconds; or it goes on with an
  edit that is not a valid key at 240 milliseconds and a valid one at 260 milliseconds.
\<close>

definition typing :: timed where
  "typing = keyChanges js [(0, js ''a'')] fresh"

definition more_edits :: "(nat \<times> jsstring) list" where
  "more_edits = [(100, js ''ab''), (200, js ''abc''), (300, js ''abcd'')]"

definition late_edits :: "(nat \<times> jsstring) list" where
  "late_edits = [(240, js ''a!''), (260, js ''ab'')]"

section \<open>Properties\<close>

subsection \<open>Key validation\<close>

text \<open>The two character classes of the pattern, in the words of the specification.\<close>

lemma letter_class_iff: "class_matches letter_class c = ascii_letter c"
  by (auto simp: class_matches_def letter_class_def ascii_letter_def cu_def)

lemma key_class_iff: "class_matches key_class c = key_character c"
  by (auto simp: class_matches_def key_class_def key_character_def ascii_letter_def cu_def)

lemma letter_is_key_character: "ascii_letter c \<Longrightarrow> key_character c"
  by (simp add: key_character_def)

text \<open>
  The matches of a starred character class are the runs of code units of the class.
\<close>

lemma run_of_self: "i \<in> run_of p s i"
  by (auto simp: run_of_def)

lemma run_of_stop: "\<not> (i < length s \<and> p (s ! i)) \<Longrightarrow> run_of p s i = {i}"
proof (rule set_eqI)
  fix j
  assume stop: "\<not> (i < length s \<and> p (s ! i))"
  show "j \<in> run_of p s i \<longleftrightarrow> j \<in> {i}"
  proof
    assume j: "j \<in> run_of p s i"
    have "\<not> i < j"
    proof
      assume "i < j"
      with j have "i < length s \<and> p (s ! i)" unfolding run_of_def by blast
      with stop show False by simp
    qed
    moreover from j have "i \<le> j" by (simp add: run_of_def)
    ultimately show "j \<in> {i}" by simp
  qed (simp add: run_of_self)
qed

lemma run_of_more:
  assumes "i < length s" and "p (s ! i)"
  shows "run_of p s i = insert i (run_of p s (Suc i))"
proof (rule set_eqI)
  fix j
  show "j \<in> run_of p s i \<longleftrightarrow> j \<in> insert i (run_of p s (Suc i))"
  proof
    assume j: "j \<in> run_of p s i"
    show "j \<in> insert i (run_of p s (Suc i))"
    proof (cases "j = i")
      case False
      with j have "Suc i \<le> j" by (simp add: run_of_def)
      moreover have "k < length s \<and> p (s ! k)" if "Suc i \<le> k" "k < j" for k
        using j that unfolding run_of_def by simp
      ultimately show ?thesis by (simp add: run_of_def)
    qed simp
  next
    assume j: "j \<in> insert i (run_of p s (Suc i))"
    show "j \<in> run_of p s i"
    proof (cases "j = i")
      case True
      then show ?thesis by (simp add: run_of_self)
    next
      case False
      with j have in_run: "j \<in> run_of p s (Suc i)" by simp
      then have "i \<le> j" by (simp add: run_of_def)
      moreover have "k < length s \<and> p (s ! k)" if "i \<le> k" "k < j" for k
      proof (cases "k = i")
        case True
        with assms show ?thesis by simp
      next
        case False
        with that have "Suc i \<le> k" by simp
        with in_run that show ?thesis unfolding run_of_def by simp
      qed
      ultimately show ?thesis by (simp add: run_of_def)
    qed
  qed
qed

lemma ends_Star_Class_more:
  "i < length s \<Longrightarrow> class_matches a (s ! i) \<Longrightarrow>
   ends (Star (Class a)) s i = ends (Star (Class a)) s (Suc i) @ [i]"
  by (subst ends.simps(5)) simp

lemma ends_Star_Class_stop:
  "\<not> (i < length s \<and> class_matches a (s ! i)) \<Longrightarrow> ends (Star (Class a)) s i = [i]"
  by (subst ends.simps(5)) auto

lemma set_ends_Star_Class:
  "set (ends (Star (Class a)) s i) = run_of (class_matches a) s i"
proof (induction n \<equiv> "length s - i" arbitrary: i rule: less_induct)
  case less
  show ?case
  proof (cases "i < length s \<and> class_matches a (s ! i)")
    case True
    then have "length s - Suc i < length s - i" by arith
    then have "set (ends (Star (Class a)) s (Suc i)) = run_of (class_matches a) s (Suc i)"
      by (rule less.hyps)
    with True show ?thesis
      by (simp add: ends_Star_Class_more run_of_more)
  next
    case False
    then show ?thesis
      by (simp add: ends_Star_Class_stop run_of_stop)
  qed
qed

text \<open>
  The pattern matches at index 0 only, and there exactly when the input splits into a run of
  key characters, a letter, a run of letters and a run of key characters up to the end.
\<close>

lemma set_ends_Seq: "set (ends (Seq r1 r2) s i) = (\<Union>j\<in>set (ends r1 s i). set (ends r2 s j))"
  by simp

lemma set_ends_Class:
  "set (ends (Class a) s i) = (if i < length s \<and> class_matches a (s ! i) then {Suc i} else {})"
  by simp

lemma ends_key_pattern_iff:
  "ends key_pattern s i \<noteq> [] \<longleftrightarrow>
     i = 0 \<and> (\<exists>j1 j3. j1 \<in> run_of key_character s 0 \<and> j1 < length s \<and> ascii_letter (s ! j1)
                 \<and> j3 \<in> run_of ascii_letter s (Suc j1) \<and> length s \<in> run_of key_character s j3)"
proof -
  have "ends key_pattern s i \<noteq> [] \<longleftrightarrow> set (ends key_pattern s i) \<noteq> {}"
    by simp
  also have "\<dots> \<longleftrightarrow> i = 0 \<and> (\<exists>j1 j3. j1 \<in> run_of key_character s 0 \<and> j1 < length s \<and> ascii_letter (s ! j1)
                 \<and> j3 \<in> run_of ascii_letter s (Suc j1) \<and> length s \<in> run_of key_character s j3)"
    unfolding key_pattern_def Plus_def set_ends_Seq set_ends_Star_Class set_ends_Class
      key_class_iff letter_class_iff
    by (auto split: if_splits)
  finally show ?thesis .
qed

lemma run_of_all:
  "(\<forall>c\<in>set s. p c) \<Longrightarrow> i \<le> j \<Longrightarrow> j \<le> length s \<Longrightarrow> j \<in> run_of p s i"
  by (simp add: run_of_def)

lemma run_of_nth:
  "j \<in> run_of p s i \<Longrightarrow> i \<le> k \<Longrightarrow> k < j \<Longrightarrow> p (s ! k)"
  by (simp add: run_of_def)

lemma test_key_pattern_iff:
  "test key_pattern s \<longleftrightarrow> (\<forall>c\<in>set s. key_character c) \<and> (\<exists>c\<in>set s. ascii_letter c)"
proof
  assume "test key_pattern s"
  then obtain j1 j3 where
    j1: "j1 \<in> run_of key_character s 0" "j1 < length s" "ascii_letter (s ! j1)" and
    j3: "j3 \<in> run_of ascii_letter s (Suc j1)" "length s \<in> run_of key_character s j3"
    by (auto simp: test_def list_ex_iff ends_key_pattern_iff)
  have "key_character (s ! k)" if "k < length s" for k
  proof -
    consider "k < j1" | "k = j1" | "Suc j1 \<le> k" "k < j3" | "j3 \<le> k"
      by linarith
    then show ?thesis
    proof cases
      case 1
      with j1(1) show ?thesis by (simp add: run_of_nth)
    next
      case 2
      with j1(3) show ?thesis by (simp add: letter_is_key_character)
    next
      case 3
      with j3(1) have "ascii_letter (s ! k)" by (rule run_of_nth)
      then show ?thesis by (rule letter_is_key_character)
    next
      case 4
      with j3(2) that show ?thesis by (simp add: run_of_nth)
    qed
  qed
  then have "\<forall>c\<in>set s. key_character c"
    by (auto simp: in_set_conv_nth)
  moreover from j1 have "\<exists>c\<in>set s. ascii_letter c"
    using nth_mem by blast
  ultimately show "(\<forall>c\<in>set s. key_character c) \<and> (\<exists>c\<in>set s. ascii_letter c)" ..
next
  assume rhs: "(\<forall>c\<in>set s. key_character c) \<and> (\<exists>c\<in>set s. ascii_letter c)"
  then obtain j1 where j1: "j1 < length s" "ascii_letter (s ! j1)"
    by (auto simp: in_set_conv_nth)
  from rhs j1 have "j1 \<in> run_of key_character s 0"
    by (simp add: run_of_all)
  moreover have "Suc j1 \<in> run_of ascii_letter s (Suc j1)"
    by (rule run_of_self)
  moreover from rhs j1 have "length s \<in> run_of key_character s (Suc j1)"
    by (simp add: run_of_all)
  ultimately have "ends key_pattern s 0 \<noteq> []"
    using j1 unfolding ends_key_pattern_iff by blast
  moreover have "0 \<in> set [0..<Suc (length s)]"
    by simp
  ultimately show "test key_pattern s"
    unfolding test_def list_ex_iff by blast
qed


text \<open>
  C2: for every string, \<open>validateKey\<close> returns no error if and only if the string has at
  most 400 code units, contains at least one ASCII letter and consists only of word
  characters, hyphens, dots and colons; for every other string it returns the error message
  of the key.
\<close>

theorem validateKey_iff:
  "(validateKey tr s = None \<longleftrightarrow>
      length s \<le> 400 \<and> (\<exists>c\<in>set s. ascii_letter c) \<and> (\<forall>c\<in>set s. key_character c))
   \<and> (validateKey tr s \<noteq> None \<longrightarrow>
        validateKey tr s = Some (tr ''onboarding.create_project.project_key.error''))"
  by (auto simp: validateKey_def test_key_pattern_iff)

text \<open>The key \<open>my-project\<close> passes; the key \<open>123\<close>, which has no letter, does not.\<close>

theorem validateKey_iff_witness:
  "validateKey js (js ''my-project'') = None
   \<and> validateKey js (js ''123'') = Some (js ''onboarding.create_project.project_key.error'')"
proof -
  have "length (js ''my-project'') \<le> 400 \<and> (\<exists>c\<in>set (js ''my-project''). ascii_letter c)
        \<and> (\<forall>c\<in>set (js ''my-project''). key_character c)"
    by (simp add: js_def cu_def ascii_letter_def key_character_def)
  then have ok: "validateKey js (js ''my-project'') = None"
    using validateKey_iff [of js "js ''my-project''", THEN conjunct1] by blast
  have "\<not> (\<exists>c\<in>set (js ''123''). ascii_letter c)"
    by (simp add: js_def cu_def ascii_letter_def)
  then have "validateKey js (js ''123'') \<noteq> None"
    using validateKey_iff [of js "js ''123''", THEN conjunct1] by blast
  then have "validateKey js (js ''123'') = Some (js ''onboarding.create_project.project_key.error'')"
    using validateKey_iff [of js "js ''123''", THEN conjunct2] by blast
  with ok show ?thesis by simp
qed

subsection \<open>Name validation\<close>

text \<open>
  C7: for every string, \<open>validateName\<close> returns no error if and only if the length of the
  string is between 1 and 255; for the empty string and for a string longer than 255 it
  returns the error message of the name.
\<close>

theorem validateName_iff:
  "(validateName tr s = None \<longleftrightarrow> 1 \<le> length s \<and> length s \<le> 255)
   \<and> (s = [] \<or> 255 < length s \<longrightarrow>
        validateName tr s = Some (tr ''onboarding.create_project.display_name.error''))"
  by (auto simp: validateName_def Suc_le_eq)

text \<open>A name of 10 code units passes; the empty name and a name of 256 code units do not.\<close>

theorem validateName_iff_witness:
  "validateName js (js ''My project'') = None
   \<and> validateName js [] = Some (js ''onboarding.create_project.display_name.error'')
   \<and> validateName js (replicate 256 (cu CHR ''a''))
       = Some (js ''onboarding.create_project.display_name.error'')"
proof -
  have "1 \<le> length (js ''My project'') \<and> length (js ''My project'') \<le> 255"
    by (simp add: js_def)
  then have "validateName js (js ''My project'') = None"
    using validateName_iff [of js "js ''My project''", THEN conjunct1] by blast
  moreover have "validateName js [] = Some (js ''onboarding.create_project.display_name.error'')"
    using validateName_iff [where s = "[]" and tr = js] by simp
  moreover have "255 < length (replicate 256 (cu CHR ''a''))"
    by simp
  then have "validateName js (replicate 256 (cu CHR ''a''))
       = Some (js ''onboarding.create_project.display_name.error'')"
    using validateName_iff [where s = "replicate 256 (cu CHR ''a'')" and tr = js] by blast
  ultimately show ?thesis by simp
qed

subsection \<open>The scenarios, evaluated\<close>

lemma key_typed_eq:
  "key_typed =
     \<lparr>mounted = True,
      state = \<lparr>projectName = js ''my-project'', projectNameChanged = False,
               projectNameError = None, projectKey = js ''my-project'',
               projectKeyError = None, submitting = False, touched = True,
               validating = True\<rparr>\<rparr>"
  by code_simp

lemma submit_pressed_eq:
  "submit_pressed =
     \<lparr>mounted = True,
      state = \<lparr>projectName = js ''my-project'', projectNameChanged = False,
               projectNameError = None, projectKey = js ''my-project'',
               projectKeyError = None, submitting = True, touched = True,
               validating = True\<rparr>\<rparr>"
  by code_simp

lemma blank_name_eq:
  "blank_name =
     \<lparr>mounted = True,
      state = \<lparr>projectName = js '' '', projectNameChanged = True,
               projectNameError = None, projectKey = js ''my-project'',
               projectKeyError = None, submitting = False, touched = True,
               validating = True\<rparr>\<rparr>"
  by code_simp

lemma trim_my_project: "trim (js ''my-project'') = js ''my-project''"
  by code_simp

lemma trim_blank: "trim (js '' '') = []"
  by code_simp

lemma js_or_empty: "js_or val [] = val"
  by (simp add: js_or_def)

subsection \<open>Submission\<close>

text \<open>
  C1, amended: \<open>canSubmit\<close> returns true if and only if both error fields are undefined and
  both the key and the name are non-empty. The submit control is enabled exactly when this
  predicate holds and no submission is in progress (\<open>submitting\<close> is false); the
  \<open>validating\<close> flag has no influence.
\<close>

theorem submit_enabled_iff:
  "(canSubmit s \<longleftrightarrow>
      projectKeyError s = None \<and> projectNameError s = None
      \<and> projectKey s \<noteq> [] \<and> projectName s \<noteq> [])
   \<and> (\<not> submitDisabled s \<longleftrightarrow> canSubmit s \<and> \<not> submitting s)
   \<and> submitDisabled (s\<lparr>validating := v\<rparr>) = submitDisabled s"
  by (simp add: canSubmit_def submitDisabled_def)

text \<open>After the key \<open>my-project\<close> was typed the form can be submitted and the control is enabled.\<close>

theorem submit_enabled_iff_witness:
  "canSubmit (state key_typed) \<and> \<not> submitDisabled (state key_typed)
   \<and> \<not> submitDisabled ((state key_typed)\<lparr>validating := False\<rparr>)"
proof -
  have fields: "projectKeyError (state key_typed) = None \<and> projectNameError (state key_typed) = None
      \<and> projectKey (state key_typed) \<noteq> [] \<and> projectName (state key_typed) \<noteq> []"
    by (simp add: key_typed_eq js_def)
  have idle: "\<not> submitting (state key_typed)"
    by (simp add: key_typed_eq)
  from fields have can: "canSubmit (state key_typed)"
    using submit_enabled_iff [of "state key_typed", THEN conjunct1] by blast
  with idle have enabled: "\<not> submitDisabled (state key_typed)"
    using submit_enabled_iff [of "state key_typed", THEN conjunct2, THEN conjunct1] by blast
  then have "\<not> submitDisabled ((state key_typed)\<lparr>validating := False\<rparr>)"
    using submit_enabled_iff [where s = "state key_typed" and v = False, THEN conjunct2, THEN conjunct2] by simp
  with can enabled show ?thesis by simp
qed

text \<open>
  C1 as stated fails once the submit button was pressed: the predicate still holds and the
  control is disabled.
\<close>

theorem submit_enabled_counterexample:
  "canSubmit (state submit_pressed) \<and> submitDisabled (state submit_pressed)"
  by (simp add: submit_pressed_eq canSubmit_def submitDisabled_def js_def)

text \<open>
  C3: a form that can be submitted is to be submitted with the project key and the trimmed
  name, the trimmed key standing in for a name that is empty after trimming. The handler
  chooses between the name and the key before it trims. For the key \<open>my-project\<close> and a
  name of one space, which \<open>validateName\<close> accepts: the form can be submitted, \<open>submitting\<close>
  becomes true, and \<open>createProject\<close> is called with the empty name, which \<open>validateName\<close>
  rejects, and not with the trimmed key.
\<close>

theorem handleFormSubmit_blank_name:
  "validateName js (projectName (state blank_name)) = None
   \<and> canSubmit (state blank_name)
   \<and> trim (projectName (state blank_name)) = []
   \<and> trim (projectKey (state blank_name)) = js ''my-project''
   \<and> handleFormSubmit blank_name =
       (blank_name\<lparr>state := (state blank_name)\<lparr>submitting := True\<rparr>\<rparr>,
        [PreventDefault, CreateProject (js ''my-project'') []])
   \<and> validateName js [] \<noteq> None"
  by (simp add: blank_name_eq canSubmit_def handleFormSubmit_def js_or_def Let_def
      trim_my_project trim_blank validateName_def)
    (simp add: js_def)

text \<open>
  C8: when \<open>createProject\<close> fails and the component is still mounted, \<open>submitting\<close> becomes
  false and every other field of the state is unchanged.
\<close>

theorem createProject_catch_mounted:
  "mounted c \<Longrightarrow>
   submitting (state (createProject_catch c)) = False
   \<and> projectKey (state (createProject_catch c)) = projectKey (state c)
   \<and> projectKeyError (state (createProject_catch c)) = projectKeyError (state c)
   \<and> projectName (state (createProject_catch c)) = projectName (state c)
   \<and> projectNameError (state (createProject_catch c)) = projectNameError (state c)
   \<and> projectNameChanged (state (createProject_catch c)) = projectNameChanged (state c)
   \<and> touched (state (createProject_catch c)) = touched (state c)
   \<and> validating (state (createProject_catch c)) = validating (state c)
   \<and> mounted (createProject_catch c) = mounted c"
  by (simp add: createProject_catch_def)

text \<open>The creation fails after the submit button was pressed.\<close>

theorem createProject_catch_mounted_witness:
  "mounted submit_pressed \<and> submitting (state submit_pressed)
   \<and> \<not> submitting (state (createProject_catch submit_pressed))
   \<and> projectKey (state (createProject_catch submit_pressed)) = js ''my-project''"
proof -
  have m: "mounted submit_pressed"
    by (simp add: submit_pressed_eq)
  have before: "submitting (state submit_pressed) \<and> projectKey (state submit_pressed) = js ''my-project''"
    by (simp add: submit_pressed_eq)
  from createProject_catch_mounted [OF m] before m show ?thesis
    by simp
qed

text \<open>
  C10: when \<open>createProject\<close> succeeds, \<open>onProjectCreate\<close> is called with the list of the one
  key of the created project, whatever the \<open>mounted\<close> flag is, and the instance is unchanged;
  the flag decides only what the failure branch does.
\<close>

theorem createProject_then_any:
  "createProject_then key (c\<lparr>mounted := m\<rparr>) = (c\<lparr>mounted := m\<rparr>, [OnProjectCreate [key]])
   \<and> createProject_catch (c\<lparr>mounted := False\<rparr>) = c\<lparr>mounted := False\<rparr>
   \<and> createProject_catch (c\<lparr>mounted := True\<rparr>)
       = c\<lparr>mounted := True, state := (state c)\<lparr>submitting := False\<rparr>\<rparr>"
  by (simp add: createProject_then_def createProject_catch_def)

text \<open>The creation succeeds after the component was unmounted, and while it is mounted.\<close>

theorem createProject_then_any_witness:
  "snd (createProject_then (js ''my-project'') (componentWillUnmount submit_pressed))
     = [OnProjectCreate [js ''my-project'']]
   \<and> snd (createProject_then (js ''my-project'') submit_pressed)
     = [OnProjectCreate [js ''my-project'']]"
proof -
  have u: "componentWillUnmount submit_pressed = submit_pressed\<lparr>mounted := False\<rparr>"
    by (simp add: componentWillUnmount_def)
  have m: "submit_pressed = submit_pressed\<lparr>mounted := True\<rparr>"
    by (simp add: submit_pressed_eq)
  have "snd (createProject_then (js ''my-project'') (submit_pressed\<lparr>mounted := True\<rparr>))
     = [OnProjectCreate [js ''my-project'']]"
    using createProject_then_any [where key = "js ''my-project''" and c = submit_pressed and m = True] by simp
  with m have "snd (createProject_then (js ''my-project'') submit_pressed)
     = [OnProjectCreate [js ''my-project'']]"
    by simp
  moreover have "snd (createProject_then (js ''my-project'') (componentWillUnmount submit_pressed))
     = [OnProjectCreate [js ''my-project'']]"
    using createProject_then_any [where key = "js ''my-project''" and c = submit_pressed and m = False] u by simp
  ultimately show ?thesis by simp
qed

subsection \<open>Key change\<close>

text \<open>
  C4: after a key change, if \<open>projectNameChanged\<close> was false, the name equals the new key
  value and the name error is the validation result of that value; if it was true, the name
  is the prior name and the name error is the validation result of the prior name.
\<close>

theorem handleProjectKeyChange_name:
  "(\<not> projectNameChanged (state c) \<longrightarrow>
      projectKey (state (fst (handleProjectKeyChange tr val c))) = val
      \<and> projectName (state (fst (handleProjectKeyChange tr val c))) = val
      \<and> projectNameError (state (fst (handleProjectKeyChange tr val c))) = validateName tr val)
   \<and> (projectNameChanged (state c) \<longrightarrow>
      projectKey (state (fst (handleProjectKeyChange tr val c))) = val
      \<and> projectName (state (fst (handleProjectKeyChange tr val c))) = projectName (state c)
      \<and> projectNameError (state (fst (handleProjectKeyChange tr val c)))
          = validateName tr (projectName (state c)))"
  by (simp add: handleProjectKeyChange_def js_or_empty Let_def)

text \<open>
  A key change in the form whose name was never edited, and in the form whose name was
  replaced by a space.
\<close>

theorem handleProjectKeyChange_name_witness:
  "\<not> projectNameChanged (state key_typed)
   \<and> projectName (state (fst (handleProjectKeyChange js (js ''other'') key_typed))) = js ''other''
   \<and> projectNameChanged (state blank_name)
   \<and> projectName (state (fst (handleProjectKeyChange js (js ''other'') blank_name))) = js '' ''"
proof -
  have mirror: "\<not> projectNameChanged (state key_typed)"
    by (simp add: key_typed_eq)
  have edited: "projectNameChanged (state blank_name) \<and> projectName (state blank_name) = js '' ''"
    by (simp add: blank_name_eq)
  from mirror have "projectName (state (fst (handleProjectKeyChange js (js ''other'') key_typed))) = js ''other''"
    using handleProjectKeyChange_name [of key_typed js "js ''other''", THEN conjunct1] by blast
  moreover from edited
  have "projectName (state (fst (handleProjectKeyChange js (js ''other'') blank_name))) = js '' ''"
    using handleProjectKeyChange_name [of blank_name js "js ''other''", THEN conjunct2] by simp
  ultimately show ?thesis
    using mirror edited by simp
qed

subsection \<open>Completion of the uniqueness check\<close>

text \<open>
  C5: when the uniqueness check completes while the component is mounted and the checked key
  is the current key: if the key exists, \<open>projectKeyError\<close> is the "key taken" message; if
  it does not exist, or the check was rejected, \<open>projectKeyError\<close> is undefined; in all
  three cases \<open>validating\<close> is false.
\<close>

theorem checkFreeKey_current:
  "mounted c \<Longrightarrow> key = projectKey (state c) \<Longrightarrow>
   projectKeyError (state (checkFreeKey_then tr key True c))
     = Some (tr ''onboarding.create_project.project_key.taken'')
   \<and> validating (state (checkFreeKey_then tr key True c)) = False
   \<and> projectKeyError (state (checkFreeKey_then tr key False c)) = None
   \<and> validating (state (checkFreeKey_then tr key False c)) = False
   \<and> projectKeyError (state (checkFreeKey_catch key c)) = None
   \<and> validating (state (checkFreeKey_catch key c)) = False"
  by (simp add: checkFreeKey_then_def checkFreeKey_catch_def)

text \<open>The check of \<open>my-project\<close> completes in the form in which this key was typed.\<close>

theorem checkFreeKey_current_witness:
  "mounted key_typed \<and> js ''my-project'' = projectKey (state key_typed)
   \<and> validating (state key_typed)
   \<and> projectKeyError (state (checkFreeKey_then js (js ''my-project'') True key_typed))
       = Some (js ''onboarding.create_project.project_key.taken'')
   \<and> \<not> validating (state (checkFreeKey_then js (js ''my-project'') True key_typed))
   \<and> \<not> validating (state (checkFreeKey_then js (js ''my-project'') False key_typed))
   \<and> \<not> validating (state (checkFreeKey_catch (js ''my-project'') key_typed))"
proof -
  have m: "mounted key_typed"
    by (simp add: key_typed_eq)
  have k: "js ''my-project'' = projectKey (state key_typed)"
    by (simp add: key_typed_eq)
  have v: "validating (state key_typed)"
    by (simp add: key_typed_eq)
  from checkFreeKey_current [OF m k, of js] m k v show ?thesis
    by simp
qed

text \<open>
  C6: a completion of the uniqueness check, resolved or rejected, that arrives after the
  unmount or whose key is not the current key, changes nothing.
\<close>

theorem checkFreeKey_stale:
  "\<not> mounted c \<or> key \<noteq> projectKey (state c) \<Longrightarrow>
   checkFreeKey_then tr key alreadyExist c = c \<and> checkFreeKey_catch key c = c"
  by (auto simp: checkFreeKey_then_def checkFreeKey_catch_def)

text \<open>
  The check of the earlier key \<open>my\<close> completes when the key is \<open>my-project\<close>; and the check
  of \<open>my-project\<close> completes after the unmount.
\<close>

theorem checkFreeKey_stale_witness:
  "js ''my'' \<noteq> projectKey (state key_typed)
   \<and> checkFreeKey_then js (js ''my'') True key_typed = key_typed
   \<and> checkFreeKey_catch (js ''my'') key_typed = key_typed
   \<and> \<not> mounted (componentWillUnmount key_typed)
   \<and> checkFreeKey_then js (js ''my-project'') True (componentWillUnmount key_typed)
       = componentWillUnmount key_typed"
proof -
  have stale: "js ''my'' \<noteq> projectKey (state key_typed)"
    by (simp add: key_typed_eq js_def)
  have gone: "\<not> mounted (componentWillUnmount key_typed)"
    by (simp add: componentWillUnmount_def)
  from stale have "\<not> mounted key_typed \<or> js ''my'' \<noteq> projectKey (state key_typed)"
    by simp
  note a = checkFreeKey_stale [OF this, of js True]
  from gone have "\<not> mounted (componentWillUnmount key_typed)
      \<or> js ''my-project'' \<noteq> projectKey (state (componentWillUnmount key_typed))"
    by simp
  note b = checkFreeKey_stale [OF this, of js True]
  from a b stale gone show ?thesis
    by simp
qed

subsection \<open>Debouncing\<close>

text \<open>
  While no pending call is due, a key change issues no request; it leaves the call for its
  own value pending if the value is valid, and the pending call as it was otherwise.
\<close>

lemma handleProjectKeyChange_effects:
  "snd (handleProjectKeyChange tr val c) = (if validateKey tr val = None then [CheckFreeKey val] else [])"
  by (simp add: handleProjectKeyChange_def js_or_empty Let_def)

lemma debounce_elapse_quiet: "quiet T sys \<Longrightarrow> t < T \<Longrightarrow> debounce_elapse t sys = sys"
  by (auto simp: quiet_def debounce_elapse_def split: option.splits)

lemma keyChangeAt_quiet:
  assumes "fst ev < T" and "T \<le> fst ev + wait" and "quiet T sys"
  shows "issued (keyChangeAt tr ev sys) = issued sys"
    and "quiet T (keyChangeAt tr ev sys)"
    and "map_option fst (timer (keyChangeAt tr ev sys))
         = (if validateKey tr (snd ev) = None then Some (snd ev) else map_option fst (timer sys))"
  using assms
  by (simp_all add: keyChangeAt_def Let_def debounce_elapse_quiet handleProjectKeyChange_effects
      debounce_call_def quiet_def)

lemma valid_keys_Cons:
  "valid_keys tr (ev # evs)
   = (if validateKey tr (snd ev) = None then snd ev # valid_keys tr evs else valid_keys tr evs)"
  by (simp add: valid_keys_def)

lemma keyChanges_quiet:
  assumes "\<forall>ev\<in>set evs. fst ev < T \<and> T \<le> fst ev + wait" and "quiet T sys"
  shows "issued (keyChanges tr evs sys) = issued sys
       \<and> map_option fst (timer (keyChanges tr evs sys))
         = (if valid_keys tr evs = [] then map_option fst (timer sys)
            else Some (last (valid_keys tr evs)))"
  using assms
proof (induction evs arbitrary: sys)
  case Nil
  then show ?case by (simp add: keyChanges_def valid_keys_def)
next
  case (Cons ev evs)
  let ?sys = "keyChangeAt tr ev sys"
  from Cons.prems have ev: "fst ev < T" "T \<le> fst ev + wait"
    by simp_all
  note step = keyChangeAt_quiet [OF ev Cons.prems(2), of tr]
  from Cons.prems(1) have "\<forall>ev\<in>set evs. fst ev < T \<and> T \<le> fst ev + wait"
    by simp
  from Cons.IH [OF this step(2)]
  have "issued (keyChanges tr evs ?sys) = issued ?sys"
    and "map_option fst (timer (keyChanges tr evs ?sys))
         = (if valid_keys tr evs = [] then map_option fst (timer ?sys)
            else Some (last (valid_keys tr evs)))"
    by simp_all
  moreover have "keyChanges tr (ev # evs) sys = keyChanges tr evs ?sys"
    by (simp add: keyChanges_def)
  ultimately show ?case
    using step(1,3) by (simp add: valid_keys_Cons)
qed

lemma debounce_settle_issued:
  "issued (debounce_settle sys)
   = issued sys @ (case map_option fst (timer sys) of None \<Rightarrow> [] | Some key \<Rightarrow> [DoesComponentExists key])"
  by (simp add: debounce_settle_def checkFreeKey_def split: option.splits prod.splits)

lemma sorted_between: "sorted xs \<Longrightarrow> x \<in> set xs \<Longrightarrow> hd xs \<le> x \<and> x \<le> last xs"
  for xs :: "nat list"
proof (induction xs)
  case Nil
  then show ?case by simp
next
  case (Cons y ys)
  then show ?case by (cases ys) auto
qed

lemma within_window_bounds:
  assumes "within_window (e # evs)" and "ev \<in> set (e # evs)"
  shows "fst ev < fst e + wait \<and> fst e + wait \<le> fst ev + wait"
proof -
  from assms(1) have srt: "sorted (map fst (e # evs))"
    and lst: "fst (last (e # evs)) < fst e + wait"
    by (simp_all add: within_window_def)
  from assms(2) have "fst ev \<in> set (map fst (e # evs))"
    by (simp only: set_map) (rule imageI)
  from sorted_between [OF srt this]
  have "hd (map fst (e # evs)) \<le> fst ev" and "fst ev \<le> last (map fst (e # evs))"
    by blast+
  moreover have "last (map fst (e # evs)) = fst (last (e # evs))"
    by (rule last_map) simp
  ultimately have "fst e \<le> fst ev" and "fst ev \<le> fst (last (e # evs))"
    by simp_all
  with lst show ?thesis by simp
qed

text \<open>
  What a key change does to the pending call and to the requests, whatever was pending.
\<close>

lemma keyChangeAt_issued:
  "issued (keyChangeAt tr ev sys) = issued (debounce_elapse (fst ev) sys)"
  by (simp add: keyChangeAt_def Let_def handleProjectKeyChange_effects debounce_call_def)

lemma keyChangeAt_timer:
  "timer (keyChangeAt tr ev sys)
   = (if validateKey tr (snd ev) = None then Some (snd ev, fst ev + wait)
      else timer (debounce_elapse (fst ev) sys))"
  by (simp add: keyChangeAt_def Let_def handleProjectKeyChange_effects debounce_call_def)

lemma debounce_elapse_due:
  "timer sys = Some (key, due) \<Longrightarrow> due \<le> t \<Longrightarrow>
   timer (debounce_elapse t sys) = None
   \<and> issued (debounce_elapse t sys) = issued sys @ [DoesComponentExists key]"
  by (simp add: debounce_elapse_def checkFreeKey_def)

lemma debounce_elapse_early:
  "timer sys = Some (key, due) \<Longrightarrow> t < due \<Longrightarrow> debounce_elapse t sys = sys"
  by (simp add: debounce_elapse_def)

text \<open>
  The requests of a sequence of events during which no pending call is due, and of a sorted
  sequence that starts with a call pending.
\<close>

lemma requests_quiet:
  assumes "\<forall>ev\<in>set evs. fst ev < T \<and> T \<le> fst ev + wait" and "quiet T sys"
  shows "issued (debounce_settle (keyChanges tr evs sys))
         = issued sys @
           (if valid_keys tr evs = []
            then (case timer sys of None \<Rightarrow> [] | Some (key, due) \<Rightarrow> [DoesComponentExists key])
            else [DoesComponentExists (last (valid_keys tr evs))])"
  using keyChanges_quiet [OF assms, of tr]
  by (auto simp: debounce_settle_issued split: option.splits)

lemma requests_pending:
  assumes "sorted (map fst evs)"
    and "\<forall>ev\<in>set evs. fst ev < T \<and> T \<le> fst ev + wait"
    and "timer sys = Some (key, due)"
  shows "issued (debounce_settle (keyChanges tr evs sys))
         = issued sys @ carried_over tr evs (Some (key, due)) @
           (if valid_keys tr evs = [] then []
            else [DoesComponentExists (last (valid_keys tr evs))])"
  using assms
proof (induction evs arbitrary: sys)
  case Nil
  then show ?case
    by (simp add: keyChanges_def valid_keys_def debounce_settle_def carried_over_def)
next
  case (Cons ev evs)
  let ?sys = "keyChangeAt tr ev sys"
  have unfold: "keyChanges tr (ev # evs) sys = keyChanges tr evs ?sys"
    by (simp add: keyChanges_def)
  from Cons.prems(2) have rest: "\<forall>ev\<in>set evs. fst ev < T \<and> T \<le> fst ev + wait"
    and ev: "fst ev < T" "T \<le> fst ev + wait"
    by simp_all
  from Cons.prems(1) have srt: "sorted (map fst evs)" and later: "\<forall>e\<in>set evs. fst ev \<le> fst e"
    by simp_all
  show ?case
  proof (cases "validateKey tr (snd ev) = None")
    case True
    then have timer: "timer ?sys = Some (snd ev, fst ev + wait)"
      by (simp add: keyChangeAt_timer)
    with ev have q: "quiet T ?sys"
      by (simp add: quiet_def)
    have issued: "issued ?sys = issued sys @ carried_over tr (ev # evs) (Some (key, due))"
    proof (cases "due \<le> fst ev")
      case True
      with Cons.prems(3) \<open>validateKey tr (snd ev) = None\<close> show ?thesis
        by (simp add: keyChangeAt_issued debounce_elapse_due carried_over_def checkFreeKey_def)
    next
      case False
      with Cons.prems(3) \<open>validateKey tr (snd ev) = None\<close> show ?thesis
        by (simp add: keyChangeAt_issued debounce_elapse_early carried_over_def)
    qed
    from requests_quiet [OF rest q, of tr] timer issued True show ?thesis
      unfolding unfold by (simp add: valid_keys_Cons)
  next
    case invalid: False
    then have same: "valid_keys tr (ev # evs) = valid_keys tr evs"
      by (simp add: valid_keys_Cons)
    show ?thesis
    proof (cases "due \<le> fst ev")
      case True
      with Cons.prems(3) invalid have timer: "timer ?sys = None"
        and issued: "issued ?sys = issued sys @ [DoesComponentExists key]"
        by (auto simp: keyChangeAt_timer keyChangeAt_issued debounce_elapse_due)
      from timer have q: "quiet T ?sys"
        by (simp add: quiet_def)
      have "carried_over tr (ev # evs) (Some (key, due)) = [DoesComponentExists key]"
      proof (cases "find (\<lambda>ev. validateKey tr (snd ev) = None) evs")
        case None
        with invalid show ?thesis
          by (auto simp: carried_over_def checkFreeKey_def)
      next
        case (Some e)
        then have "e \<in> set evs"
          by (auto simp: find_Some_iff)
        with later True have "due \<le> fst e"
          by fastforce
        with Some invalid show ?thesis
          by (auto simp: carried_over_def checkFreeKey_def)
      qed
      with requests_quiet [OF rest q, of tr] timer issued show ?thesis
        unfolding unfold same by simp
    next
      case False
      with Cons.prems(3) invalid have timer: "timer ?sys = Some (key, due)"
        and issued: "issued ?sys = issued sys"
        by (auto simp: keyChangeAt_timer keyChangeAt_issued debounce_elapse_early)
      have "carried_over tr (ev # evs) (Some (key, due)) = carried_over tr evs (Some (key, due))"
        using invalid by (auto simp: carried_over_def)
      with Cons.IH [OF srt rest timer] issued show ?thesis
        unfolding unfold same by simp
    qed
  qed
qed


lemma typing_eq:
  "timer typing = Some (js ''a'', 250) \<and> issued typing = []"
  by code_simp

text \<open>
  C9, amended: for every sequence of key-change events within a window of 250 milliseconds,
  at most one uniqueness request is issued for the values entered in it; it uses the last of
  the entered values that passed the local validation, and none is issued when no entered
  value passed it. Before it, the request of a call that was pending when the window started
  is issued, unless a valid entered value came before that call was due.
\<close>

theorem debounced_requests:
  assumes "within_window evs"
  shows "issued (debounce_settle (keyChanges tr evs sys))
         = issued sys @ carried_over tr evs (timer sys) @
           (if valid_keys tr evs = [] then []
            else [DoesComponentExists (last (valid_keys tr evs))])"
proof (cases evs)
  case Nil
  then show ?thesis
    by (simp add: keyChanges_def valid_keys_def debounce_settle_def carried_over_def
        split: option.splits)
next
  case (Cons e evs')
  let ?T = "fst e + wait"
  from assms Cons have bounds: "\<forall>ev\<in>set evs. fst ev < ?T \<and> ?T \<le> fst ev + wait"
    using within_window_bounds by blast
  from assms have srt: "sorted (map fst evs)"
    by (simp add: within_window_def)
  show ?thesis
  proof (cases "timer sys")
    case None
    then have "quiet ?T sys"
      by (simp add: quiet_def)
    from requests_quiet [OF bounds this, of tr] None show ?thesis
      by (simp add: carried_over_def)
  next
    case (Some pending)
    then have "timer sys = Some (fst pending, snd pending)"
      by simp
    from requests_pending [OF srt bounds this, of tr] Some show ?thesis
      by simp
  qed
qed

text \<open>
  Typing goes on with three valid edits while the call for \<open>a\<close> is pending: one request, for
  the last key. Two edits in a form just mounted, the second one not a valid key: one
  request, for the first key.
\<close>

theorem debounced_requests_witness:
  "within_window more_edits
   \<and> timer typing = Some (js ''a'', 250)
   \<and> issued (debounce_settle (keyChanges js more_edits typing)) = [DoesComponentExists (js ''abcd'')]
   \<and> within_window two_edits
   \<and> issued (debounce_settle (keyChanges js two_edits fresh)) = [DoesComponentExists (js ''ab'')]"
proof -
  have w: "within_window more_edits"
    by code_simp
  have v: "valid_keys js more_edits = [js ''ab'', js ''abc'', js ''abcd'']"
    by code_simp
  have c: "carried_over js more_edits (Some (js ''a'', 250)) = []"
    by code_simp
  have w2: "within_window two_edits"
    by code_simp
  have v2: "valid_keys js two_edits = [js ''ab'']"
    by code_simp
  have f: "timer fresh = None \<and> issued fresh = []"
    by (simp add: fresh_def)
  from debounced_requests [OF w, of js typing] debounced_requests [OF w2, of js fresh]
    v c v2 f w w2 typing_eq
  show ?thesis
    by (simp add: carried_over_def)
qed

text \<open>
  C9 as stated fails when the last-entered value is not a valid key: the one request uses
  the key \<open>ab\<close> entered before it, not the last-entered value. It also fails when a call
  pending from before the window is due within it and no valid value was entered before:
  two requests are issued.
\<close>

theorem debounced_requests_counterexample:
  "within_window two_edits
   \<and> issued (debounce_settle (keyChanges js two_edits fresh)) = [DoesComponentExists (js ''ab'')]
   \<and> snd (last two_edits) = js ''ab!''
   \<and> js ''ab'' \<noteq> js ''ab!''
   \<and> within_window late_edits
   \<and> timer typing = Some (js ''a'', 250)
   \<and> issued (debounce_settle (keyChanges js late_edits typing))
       = [DoesComponentExists (js ''a''), DoesComponentExists (js ''ab'')]"
  by code_simp

end
